theory Spec2Isabelle
  imports
    Complex_Main
    "HOL-Library.Multiset"
    "HOL-Library.List_Lexorder"
    "HOL-Library.Char_ord"
begin

section \<open>The inventory report of \<^verbatim>\<open>streamlit_app.py\<close>\<close>

text \<open>
  The script fetches a JSON array of inventory objects, builds a data frame, adds two
  derived columns, and renders a sorted table, a collection selector, a filtered table
  and a pie chart. Every variable of the script is a definition below with the same
  name; a data frame is the list of its rows, in row order.

  Three libraries decide details the script does not: \<^verbatim>\<open>humanize.naturalsize\<close> is a
  parameter \<open>naturalsize\<close> (value, \<^verbatim>\<open>binary\<close> flag); \<^verbatim>\<open>sort_values\<close> of pandas is
  called with its default \<^verbatim>\<open>kind='quicksort'\<close>, which pandas documents as not stable,
  so it is a relation between a frame and its possible results; the column layout of
  a matplotlib legend is \<open>legend_column_sizes\<close>.
\<close>

subsection \<open>Records of the inventory and rows of the frame\<close>

text \<open>
  One JSON object of the snapshot, with the types of the spec's data model: the file
  count is an integer, \<^verbatim>\<open>size\<close> is an integer or null. The field \<^verbatim>\<open>size\<close> is called
  \<open>size_bytes\<close> here.
\<close>

record dataset =
  bildid :: string
  bildirectory :: string
  number_of_files :: int
  size_bytes :: "int option"

text \<open>A row of \<^verbatim>\<open>df\<close> after lines 37 and 40: the JSON columns and the two derived ones.\<close>

record row = dataset +
  collection :: "string option"
  pretty_size :: "string option"

text \<open>The four renamed columns shown by both tables (lines 46-51 and 66-71).\<close>

record view =
  Collection :: "string option"
  Brain_ID :: string
  Number_of_Files :: int
  Size :: "string option"

subsection \<open>Line 33-35: \<^verbatim>\<open>extract_collection\<close>\<close>

text \<open>The character class \<^verbatim>\<open>[a-f0-9]\<close>.\<close>

definition is_hex :: "char \<Rightarrow> bool" where
  "is_hex c \<longleftrightarrow>
     (CHR ''a'' \<le> c \<and> c \<le> CHR ''f'') \<or> (CHR ''0'' \<le> c \<and> c \<le> CHR ''9'')"

fun strip_prefix :: "string \<Rightarrow> string \<Rightarrow> string option" where
  "strip_prefix [] s = Some s"
| "strip_prefix (p # ps) [] = None"
| "strip_prefix (p # ps) (c # cs) = (if p = c then strip_prefix ps cs else None)"

text \<open>
  The pattern \<^verbatim>\<open>/bil/data/([a-f0-9]{2})/\<close> matched at the start of \<open>s\<close>; the result is
  group 1.
\<close>

definition match_here :: "string \<Rightarrow> string option" where
  "match_here s =
     (case strip_prefix ''/bil/data/'' s of
        Some (a # b # c # rest) \<Rightarrow>
          if is_hex a \<and> is_hex b \<and> c = CHR ''/'' then Some [a, b] else None
      | _ \<Rightarrow> None)"

text \<open>
  \<^verbatim>\<open>re.search\<close> tries the pattern at every position from the left and returns the first
  match; \<^verbatim>\<open>None\<close> when there is none.
\<close>

fun extract_collection :: "string \<Rightarrow> string option" where
  "extract_collection [] = None"
| "extract_collection (c # cs) =
     (case match_here (c # cs) of
        Some g \<Rightarrow> Some g
      | None \<Rightarrow> extract_collection cs)"

subsection \<open>Line 40: the size column\<close>

text \<open>
  The lambda of line 40: \<^verbatim>\<open>humanize.naturalsize(s, binary=True) if pd.notnull(s) else None\<close>.
\<close>

definition pretty_size_of :: "(int \<Rightarrow> bool \<Rightarrow> string) \<Rightarrow> int option \<Rightarrow> string option" where
  "pretty_size_of naturalsize s =
     (case s of
        Some v \<Rightarrow> Some (naturalsize v True)
      | None \<Rightarrow> None)"

subsection \<open>Lines 30-40: the frame \<^verbatim>\<open>df\<close>\<close>

definition add_columns :: "(int \<Rightarrow> bool \<Rightarrow> string) \<Rightarrow> dataset \<Rightarrow> row" where
  "add_columns naturalsize d =
     \<lparr> bildid = bildid d,
       bildirectory = bildirectory d,
       number_of_files = number_of_files d,
       size_bytes = size_bytes d,
       collection = extract_collection (bildirectory d),
       pretty_size = pretty_size_of naturalsize (size_bytes d) \<rparr>"

definition df :: "(int \<Rightarrow> bool \<Rightarrow> string) \<Rightarrow> dataset list \<Rightarrow> row list" where
  "df naturalsize data = map (add_columns naturalsize) data"

subsection \<open>Lines 43-51: the sorted frame and its preview\<close>

text \<open>
  \<^verbatim>\<open>sort_values(by=..., ascending=False)\<close> with the default \<^verbatim>\<open>kind='quicksort'\<close>: the
  result holds the same rows, with the key descending. The order of rows with equal
  keys is the algorithm's; pandas documents only \<^verbatim>\<open>mergesort\<close> and \<^verbatim>\<open>stable\<close> as
  stable. \<open>sort_values_desc key xs ys\<close> says that \<open>ys\<close> is a possible result for \<open>xs\<close>.
\<close>

definition sort_values_desc :: "('a \<Rightarrow> int) \<Rightarrow> 'a list \<Rightarrow> 'a list \<Rightarrow> bool" where
  "sort_values_desc key xs ys \<longleftrightarrow>
     mset ys = mset xs \<and> sorted_wrt (\<lambda>a b. key b \<le> key a) ys"


definition select_rename :: "row \<Rightarrow> view" where
  "select_rename r =
     \<lparr> Collection = collection r,
       Brain_ID = bildid r,
       Number_of_Files = number_of_files r,
       Size = pretty_size r \<rparr>"


subsection \<open>Lines 61-62: the collection selector\<close>

primrec dropna :: "'a option list \<Rightarrow> 'a list" where
  "dropna [] = []"
| "dropna (x # xs) = (case x of None \<Rightarrow> dropna xs | Some v \<Rightarrow> v # dropna xs)"

text \<open>\<^verbatim>\<open>Series.unique\<close>: the distinct values, in order of first appearance.\<close>

fun unique :: "'a list \<Rightarrow> 'a list" where
  "unique [] = []"
| "unique (x # xs) = x # unique (filter (\<lambda>y. y \<noteq> x) xs)"

text \<open>
  \<^verbatim>\<open>sorted\<close> on Python strings compares them character by character, a proper prefix
  first: the lexicographic order of \<open>string\<close>.
\<close>

definition unique_collections :: "row list \<Rightarrow> string list" where
  "unique_collections rows = sort (unique (dropna (map collection rows)))"

subsection \<open>Lines 66-78: the rows of the selected collection\<close>

text \<open>
  The comparison \<^verbatim>\<open>df["collection"] == selected_collection\<close>: elementwise, and false
  wherever either side is null. \<^verbatim>\<open>selected_collection\<close> is \<^verbatim>\<open>None\<close> when the selector
  has no option.
\<close>

fun eq_na :: "string option \<Rightarrow> string option \<Rightarrow> bool" where
  "eq_na (Some a) (Some b) = (a = b)"
| "eq_na _ _ = False"

definition selected_rows :: "row list \<Rightarrow> string option \<Rightarrow> row list" where
  "selected_rows rows selected_collection =
     filter (\<lambda>r. eq_na (collection r) selected_collection) rows"

definition filtered_df :: "row list \<Rightarrow> string option \<Rightarrow> view list" where
  "filtered_df rows selected_collection =
     map select_rename (selected_rows rows selected_collection)"

text \<open>
  Line 77 and the mask of line 78: the series of file counts indexed by \<^verbatim>\<open>bildid\<close>,
  restricted to the positive counts, before it is sorted.
\<close>

definition pie_unsorted :: "row list \<Rightarrow> string option \<Rightarrow> (string \<times> int) list" where
  "pie_unsorted rows selected_collection =
     filter (\<lambda>e. 0 < snd e)
       (map (\<lambda>r. (bildid r, number_of_files r)) (selected_rows rows selected_collection))"

text \<open>Line 78: \<open>out\<close> is a possible value of \<^verbatim>\<open>pie_data\<close>.\<close>

definition pie_data :: "row list \<Rightarrow> string option \<Rightarrow> (string \<times> int) list \<Rightarrow> bool" where
  "pie_data rows selected_collection out \<longleftrightarrow>
     sort_values_desc snd (pie_unsorted rows selected_collection) out"

subsection \<open>Lines 91-102: the legend\<close>

definition labels :: "(string \<times> int) list \<Rightarrow> string list" where
  "labels pie = map fst pie"

text \<open>Python's \<^verbatim>\<open>//\<close> rounds down, as \<open>div\<close> on \<open>int\<close> does: no label gives 0 columns.\<close>

definition num_cols :: "string list \<Rightarrow> int" where
  "num_cols ls = (int (length ls) - 1) div 25 + 1"

text \<open>
  matplotlib lays \<open>n\<close> legend entries out in \<open>ncol \<ge> 1\<close> columns by splitting them as
  evenly as possible: the first \<open>n mod ncol\<close> columns hold one entry more than the
  others, and empty columns are dropped. The result lists the number of entries of
  each column.
\<close>

definition legend_column_sizes :: "nat \<Rightarrow> nat \<Rightarrow> nat list" where
  "legend_column_sizes n ncol =
     filter (\<lambda>k. 0 < k)
       (replicate (n mod ncol) (n div ncol + 1) @ replicate (ncol - n mod ncol) (n div ncol))"

subsection \<open>Lines 10-107: what a run renders\<close>








subsection \<open>Notions the properties are stated with\<close>

definition hex2 :: "string \<Rightarrow> bool" where
  "hex2 c \<longleftrightarrow> length c = 2 \<and> list_all is_hex c"

text \<open>\<open>p\<close> reads \<open>pre\<close>, then \<^verbatim>\<open>/bil/data/\<close>, the code \<open>c\<close>, a slash, and a rest.\<close>

definition occurs_at :: "string \<Rightarrow> string \<Rightarrow> string \<Rightarrow> bool" where
  "occurs_at pre c p \<longleftrightarrow> hex2 c \<and> (\<exists>post. p = pre @ ''/bil/data/'' @ c @ ''/'' @ post)"

definition leftmost :: "string \<Rightarrow> string \<Rightarrow> string \<Rightarrow> bool" where
  "leftmost pre c p \<longleftrightarrow>
     occurs_at pre c p \<and> (\<forall>pre' c'. occurs_at pre' c' p \<longrightarrow> length pre \<le> length pre')"

text \<open>Adjacent rows never increase in file count.\<close>

definition descending :: "('a \<Rightarrow> int) \<Rightarrow> 'a list \<Rightarrow> bool" where
  "descending key ys \<longleftrightarrow> (\<forall>i. Suc i < length ys \<longrightarrow> key (ys ! Suc i) \<le> key (ys ! i))"


subsection \<open>Inputs of the examples\<close>

text \<open>
  A formatter that stands for the library where an example needs one: it shows only
  which unit system it was asked for.
\<close>

definition stub_naturalsize :: "int \<Rightarrow> bool \<Rightarrow> string" where
  "stub_naturalsize v binary = (if binary then ''binary'' else ''decimal'')"

text \<open>The two records of the spec's scenario.\<close>

definition scenario :: "dataset list" where
  "scenario =
     [\<lparr> bildid = ''A1'', bildirectory = ''/bil/data/3f/x'', number_of_files = 10,
        size_bytes = Some 1073741824 \<rparr>,
      \<lparr> bildid = ''A2'', bildirectory = ''/bil/data/3f/y'', number_of_files = 0,
        size_bytes = None \<rparr>]"

text \<open>The scenario with a third record whose path has no collection.\<close>

definition with_unmatched :: "dataset list" where
  "with_unmatched =
     scenario @
     [\<lparr> bildid = ''A3'', bildirectory = ''/other/path'', number_of_files = 7,
        size_bytes = None \<rparr>]"


text \<open>Two records of one collection, the smaller file count first.\<close>

definition ascending_pair :: "dataset list" where
  "ascending_pair =
     [\<lparr> bildid = ''B1'', bildirectory = ''/bil/data/3f/x'', number_of_files = 1,
        size_bytes = None \<rparr>,
      \<lparr> bildid = ''B2'', bildirectory = ''/bil/data/3f/y'', number_of_files = 2,
        size_bytes = None \<rparr>]"

section \<open>Collection extraction\<close>

lemma strip_prefix_iff: "strip_prefix p s = Some r \<longleftrightarrow> s = p @ r"
  by (induction p s rule: strip_prefix.induct) auto

lemma match_here_iff: "match_here s = Some c \<longleftrightarrow> occurs_at [] c s"
proof
  assume "match_here s = Some c"
  then obtain a b x rest where s: "s = ''/bil/data/'' @ (a # b # x # rest)"
    and ok: "is_hex a" "is_hex b" "x = CHR ''/''" and c: "c = [a, b]"
    unfolding match_here_def
    by (auto simp: strip_prefix_iff split: option.splits list.splits if_splits)
  then show "occurs_at [] c s"
    by (auto simp: occurs_at_def hex2_def)
next
  assume "occurs_at [] c s"
  then obtain post where h: "hex2 c" and s: "s = ''/bil/data/'' @ c @ ''/'' @ post"
    by (auto simp: occurs_at_def)
  from h obtain a b where c: "c = [a, b]" and ok: "is_hex a" "is_hex b"
    by (cases c; cases "tl c") (auto simp: hex2_def)
  have "strip_prefix ''/bil/data/'' s = Some (a # b # CHR ''/'' # post)"
    unfolding strip_prefix_iff using s c by simp
  then show "match_here s = Some c"
    using ok c by (simp add: match_here_def)
qed

lemma occurs_at_Nil: "\<not> occurs_at pre c []"
  by (simp add: occurs_at_def)

lemma occurs_at_Cons_Cons:
  "occurs_at (x # pre) c (y # xs) \<longleftrightarrow> x = y \<and> occurs_at pre c xs"
  by (auto simp: occurs_at_def)

lemma append_code_unique:
  "pre @ k @ c @ r = pre' @ k @ c' @ r' \<Longrightarrow> length pre = length pre' \<Longrightarrow>
   length c = length c' \<Longrightarrow> pre = pre' \<and> c = c'"
  by simp

lemma occurs_at_code_unique:
  assumes "occurs_at pre c p" "occurs_at pre' c' p" "length pre = length pre'"
  shows "pre = pre' \<and> c = c'"
proof -
  from assms obtain post post' where
    p: "p = pre @ ''/bil/data/'' @ c @ ''/'' @ post"
    and p': "p = pre' @ ''/bil/data/'' @ c' @ ''/'' @ post'"
    and l: "length c = length c'"
    by (auto simp: occurs_at_def hex2_def)
  from p p' have "pre @ ''/bil/data/'' @ c @ ''/'' @ post = pre' @ ''/bil/data/'' @ c' @ ''/'' @ post'"
    by simp
  then show ?thesis using assms(3) l by (rule append_code_unique)
qed

lemma extract_Some_leftmost:
  "extract_collection p = Some c \<Longrightarrow> \<exists>pre. leftmost pre c p"
proof (induction p)
  case Nil
  then show ?case by simp
next
  case (Cons x xs)
  show ?case
  proof (cases "match_here (x # xs)")
    case (Some g)
    with Cons.prems have "occurs_at [] c (x # xs)"
      by (simp add: match_here_iff)
    then have "leftmost [] c (x # xs)" by (simp add: leftmost_def)
    then show ?thesis ..
  next
    case None
    then have no: "\<And>c'. \<not> occurs_at [] c' (x # xs)"
      by (simp add: match_here_iff [symmetric])
    from None Cons.prems have "extract_collection xs = Some c" by simp
    then obtain pre where l: "leftmost pre c xs" using Cons.IH by blast
    have "leftmost (x # pre) c (x # xs)"
      unfolding leftmost_def
    proof (intro conjI allI impI)
      show "occurs_at (x # pre) c (x # xs)"
        using l by (simp add: leftmost_def occurs_at_Cons_Cons)
    next
      fix pre' c'
      assume o: "occurs_at pre' c' (x # xs)"
      with no obtain q where q: "pre' = x # q" "occurs_at q c' xs"
        by (cases pre') (auto simp: occurs_at_Cons_Cons)
      with l have "length pre \<le> length q" by (auto simp: leftmost_def)
      with q show "length (x # pre) \<le> length pre'" by simp
    qed
    then show ?thesis ..
  qed
qed

lemma occurs_extract_Some:
  "occurs_at pre c p \<Longrightarrow> \<exists>c'. extract_collection p = Some c'"
proof (induction p arbitrary: pre)
  case Nil
  then show ?case by (simp add: occurs_at_Nil)
next
  case (Cons x xs)
  show ?case
  proof (cases "match_here (x # xs)")
    case (Some g)
    then show ?thesis by simp
  next
    case None
    then have no: "\<And>c'. \<not> occurs_at [] c' (x # xs)"
      by (simp add: match_here_iff [symmetric])
    with Cons.prems obtain q where "occurs_at q c xs"
      by (cases pre) (auto simp: occurs_at_Cons_Cons)
    then have "\<exists>c'. extract_collection xs = Some c'" by (rule Cons.IH)
    with None show ?thesis by simp
  qed
qed

lemma leftmost_extract:
  assumes "leftmost pre c p"
  shows "extract_collection p = Some c"
proof -
  from assms have o: "occurs_at pre c p" by (simp add: leftmost_def)
  then obtain c' where e: "extract_collection p = Some c'"
    using occurs_extract_Some by blast
  then obtain pre' where l': "leftmost pre' c' p"
    using extract_Some_leftmost by blast
  from assms l' have "length pre = length pre'"
    by (auto simp: leftmost_def intro: antisym)
  with o l' have "c = c'"
    using occurs_at_code_unique by (auto simp: leftmost_def)
  with e show ?thesis by simp
qed

text \<open>
  Claim C1, as the code has it. The pattern asks for the literal root \<^verbatim>\<open>/bil/data/\<close>
  before the two characters, and for lower-case hexadecimal digits. For every path,
  extraction returns the code \<open>c\<close> exactly when \<open>c\<close> is the two-character code of the
  leftmost place where the path reads \<^verbatim>\<open>/bil/data/\<close>, two such digits and a slash; it
  returns null exactly when the path has no such place.
\<close>

theorem extract_collection_leftmost:
  "(extract_collection p = Some c \<longleftrightarrow> (\<exists>pre. leftmost pre c p)) \<and>
   (extract_collection p = None \<longleftrightarrow> (\<forall>pre c'. \<not> occurs_at pre c' p))"
proof (intro conjI iffI)
  assume "extract_collection p = None"
  then show "\<forall>pre c'. \<not> occurs_at pre c' p"
    using occurs_extract_Some by fastforce
next
  assume n: "\<forall>pre c'. \<not> occurs_at pre c' p"
  show "extract_collection p = None"
  proof (cases "extract_collection p")
    case (Some g)
    then obtain pre where "leftmost pre g p" using extract_Some_leftmost by blast
    with n show ?thesis by (simp add: leftmost_def)
  qed simp
qed (auto intro: extract_Some_leftmost leftmost_extract)

text \<open>The path of the spec's scenario, and a path without the root.\<close>

theorem extract_collection_leftmost_witness:
  "leftmost [] ''3f'' ''/bil/data/3f/x'' \<and>
   extract_collection ''/bil/data/3f/x'' = Some ''3f'' \<and>
   extract_collection ''/other/path'' = None"
proof -
  have o: "occurs_at [] ''3f'' ''/bil/data/3f/x''"
    by (simp add: occurs_at_def hex2_def is_hex_def)
  then have l: "leftmost [] ''3f'' ''/bil/data/3f/x''"
    by (simp add: leftmost_def)
  have n: "\<forall>pre c'. \<not> occurs_at pre c' ''/other/path''"
  proof (intro allI notI)
    fix pre c'
    assume "occurs_at pre c' ''/other/path''"
    then obtain post where "''/other/path'' = pre @ ''/bil/data/'' @ c' @ ''/'' @ post"
      and "length c' = 2"
      by (auto simp: occurs_at_def hex2_def)
    then have "length ''/other/path'' = length (pre @ ''/bil/data/'' @ c' @ ''/'' @ post)"
      by simp
    with \<open>length c' = 2\<close> show False by simp
  qed
  from l n show ?thesis
    using extract_collection_leftmost [of "''/bil/data/3f/x''" "''3f''"]
      extract_collection_leftmost [of "''/other/path''" "''''"]
    by blast
qed

text \<open>
  Claim C1 as stated fails: \<^verbatim>\<open>/other/3f/x\<close> has the two-hex-character segment \<^verbatim>\<open>3f\<close>
  between slashes, and extraction returns null, since the segment does not follow
  \<^verbatim>\<open>/bil/data\<close>.
\<close>

theorem two_hex_segment_counterexample:
  "''/other/3f/x'' = ''/other'' @ ''/'' @ ''3f'' @ ''/'' @ ''x'' \<and> hex2 ''3f'' \<and>
   extract_collection ''/other/3f/x'' = None"
  by (simp add: hex2_def is_hex_def match_here_def)

section \<open>The size column\<close>



section \<open>The sorted frame\<close>

lemma sort_values_desc_descending:
  "sort_values_desc key xs ys \<Longrightarrow> descending key ys"
  by (simp add: sort_values_desc_def descending_def sorted_wrt_iff_nth_less)

lemma sort_values_desc_possible: "sort_values_desc key xs (rev (sort_key key xs))"
proof -
  have "sorted (map key (sort_key key xs))" by (rule sorted_sort_key)
  then have "sorted_wrt (\<lambda>a b. key a \<le> key b) (sort_key key xs)"
    by (simp add: sorted_map)
  then have "sorted_wrt (\<lambda>a b. key b \<le> key a) (rev (sort_key key xs))"
    by (simp add: sorted_wrt_rev)
  then show ?thesis by (simp add: sort_values_desc_def)
qed




section \<open>The collection selector\<close>

lemma set_dropna: "set (dropna xs) = {v. Some v \<in> set xs}"
  by (induction xs) (auto split: option.splits)

lemma set_unique: "set (unique xs) = set xs"
  by (induction xs rule: unique.induct) auto

lemma distinct_unique: "distinct (unique xs)"
  by (induction xs rule: unique.induct) (auto simp: set_unique)

text \<open>
  Claim C6. The list of codes offered by the selector is ascending in the
  lexicographic order, has no code twice, and holds exactly the non-null collection
  codes of the frame: it is the sorted list of that set.
\<close>

theorem unique_collections_sorted_set:
  "sorted (unique_collections rows) \<and> distinct (unique_collections rows) \<and>
   set (unique_collections rows) = {c. Some c \<in> set (map collection rows)} \<and>
   unique_collections rows = sorted_list_of_set {c. Some c \<in> set (map collection rows)}"
proof -
  have s: "sorted (unique_collections rows)" and d: "distinct (unique_collections rows)"
    and e: "set (unique_collections rows) = {c. Some c \<in> set (map collection rows)}"
    by (simp_all add: unique_collections_def distinct_unique set_unique set_dropna)
  have "finite {c. Some c \<in> set (map collection rows)}"
    unfolding e [symmetric] by simp
  with s d e have
    "unique_collections rows = sorted_list_of_set {c. Some c \<in> set (map collection rows)}"
    by (metis sorted_list_of_set.idem_if_sorted_distinct)
  with s d e show ?thesis by simp
qed

text \<open>With the unmatched third record, the selector offers the one code \<^verbatim>\<open>3f\<close>.\<close>

theorem unique_collections_sorted_set_witness:
  "unique_collections (df stub_naturalsize with_unmatched) = [''3f''] \<and>
   {c. Some c \<in> set (map collection (df stub_naturalsize with_unmatched))} = {''3f''}"
proof -
  have "unique_collections (df stub_naturalsize with_unmatched) = [''3f'']"
    by (simp add: unique_collections_def df_def with_unmatched_def scenario_def
        add_columns_def match_here_def is_hex_def)
  with unique_collections_sorted_set [of "df stub_naturalsize with_unmatched"] show ?thesis
    by (metis list.simps(15) empty_set)
qed

section \<open>The rows of the selected collection\<close>

lemma eq_na_Some: "eq_na x (Some c) \<longleftrightarrow> x = Some c"
  by (cases x) auto

lemma collection_add_columns:
  "collection (add_columns naturalsize d) = extract_collection (bildirectory d)"
  by (simp add: add_columns_def)

lemma selected_rows_df:
  "selected_rows (df naturalsize data) (Some c) =
     map (add_columns naturalsize)
       (filter (\<lambda>d. extract_collection (bildirectory d) = Some c) data)"
  by (simp add: selected_rows_def df_def filter_map o_def eq_na_Some collection_add_columns)

lemma pie_unsorted_df:
  "pie_unsorted (df naturalsize data) (Some c) =
     map (\<lambda>d. (bildid d, number_of_files d))
       (filter (\<lambda>d. extract_collection (bildirectory d) = Some c \<and> 0 < number_of_files d) data)"
  by (simp add: pie_unsorted_def selected_rows_df filter_map o_def add_columns_def conj_commute)

text \<open>
  Claim C5. For every loaded dataset and every selected collection, the pie-chart
  input has a value, and every possible value holds exactly the (identifier, file
  count) entries of the records of that collection whose file count is greater than
  zero, each as often as the data does; so no entry has the file count 0; and the
  entries are descending by file count.
\<close>

theorem pie_data_positive_descending:
  "pie_data (df naturalsize data) (Some c)
     (rev (sort_key snd (pie_unsorted (df naturalsize data) (Some c)))) \<and>
   (pie_data (df naturalsize data) (Some c) out \<longrightarrow>
      mset out =
        image_mset (\<lambda>d. (bildid d, number_of_files d))
          (filter_mset
             (\<lambda>d. extract_collection (bildirectory d) = Some c \<and> 0 < number_of_files d)
             (mset data)) \<and>
      (\<forall>e \<in> set out. 0 < snd e) \<and>
      descending snd out)"
proof (intro conjI impI)
  show "pie_data (df naturalsize data) (Some c)
     (rev (sort_key snd (pie_unsorted (df naturalsize data) (Some c))))"
    unfolding pie_data_def by (rule sort_values_desc_possible)
next
  assume p: "pie_data (df naturalsize data) (Some c) out"
  then show "descending snd out"
    by (simp add: pie_data_def sort_values_desc_descending)
  from p have m: "mset out = mset (pie_unsorted (df naturalsize data) (Some c))"
    by (simp add: pie_data_def sort_values_desc_def)
  then have s: "set out = set (pie_unsorted (df naturalsize data) (Some c))"
    by (rule mset_eq_setD)
  show "\<forall>e \<in> set out. 0 < snd e"
    unfolding s by (simp add: pie_unsorted_def)
  from m show "mset out =
        image_mset (\<lambda>d. (bildid d, number_of_files d))
          (filter_mset
             (\<lambda>d. extract_collection (bildirectory d) = Some c \<and> 0 < number_of_files d)
             (mset data))"
    by (simp add: pie_unsorted_df)
qed

text \<open>The scenario: the chart of collection \<^verbatim>\<open>3f\<close> holds A1 alone; A2 has no file.\<close>

theorem pie_data_positive_descending_witness:
  "pie_data (df stub_naturalsize scenario) (Some ''3f'') [(''A1'', 10)] \<and>
   mset [(''A1'', 10::int)] =
       image_mset (\<lambda>d. (bildid d, number_of_files d))
         (filter_mset
            (\<lambda>d. extract_collection (bildirectory d) = Some ''3f'' \<and> 0 < number_of_files d)
            (mset scenario)) \<and>
   descending snd [(''A1'', 10::int)]"
proof -
  have p: "pie_data (df stub_naturalsize scenario) (Some ''3f'') [(''A1'', 10)]"
    by (simp add: pie_data_def sort_values_desc_def pie_unsorted_def selected_rows_def df_def
        scenario_def add_columns_def match_here_def is_hex_def)
  from pie_data_positive_descending [of stub_naturalsize scenario "''3f''" "[(''A1'', 10)]"] p
  show ?thesis by blast
qed

text \<open>
  Claim C9. For every loaded dataset and every selected collection, the filtered
  table lists the matching records in the order of the input: its identifiers and
  file counts are those of the input records of that collection, in input order. It
  is not put in descending order: for two records with 1 and 2 files, the filtered
  table shows 1 before 2.
\<close>

theorem filtered_df_input_order:
  "map Brain_ID (filtered_df (df naturalsize data) (Some c)) =
     map bildid (filter (\<lambda>d. extract_collection (bildirectory d) = Some c) data) \<and>
   map Number_of_Files (filtered_df (df naturalsize data) (Some c)) =
     map number_of_files (filter (\<lambda>d. extract_collection (bildirectory d) = Some c) data) \<and>
   map Number_of_Files (filtered_df (df naturalsize ascending_pair) (Some ''3f'')) = [1, 2] \<and>
   \<not> descending Number_of_Files (filtered_df (df naturalsize ascending_pair) (Some ''3f''))"
proof -
  have a: "filter (\<lambda>d. extract_collection (bildirectory d) = Some ''3f'') ascending_pair =
      ascending_pair"
    by (simp add: ascending_pair_def match_here_def is_hex_def)
  have b: "map Number_of_Files (filtered_df (df naturalsize ascending_pair) (Some ''3f'')) =
      [1, 2]"
    by (simp add: filtered_df_def selected_rows_df a)
       (simp add: ascending_pair_def select_rename_def add_columns_def)
  have "\<not> descending Number_of_Files (filtered_df (df naturalsize ascending_pair) (Some ''3f''))"
  proof
    assume "descending Number_of_Files (filtered_df (df naturalsize ascending_pair) (Some ''3f''))"
    then have
      "map Number_of_Files (filtered_df (df naturalsize ascending_pair) (Some ''3f'')) ! Suc 0
        \<le> map Number_of_Files (filtered_df (df naturalsize ascending_pair) (Some ''3f'')) ! 0"
      unfolding descending_def
      by (simp add: filtered_df_def selected_rows_df a) (simp add: ascending_pair_def)
    then show False unfolding b by simp
  qed
  with b show ?thesis
    by (simp add: filtered_df_def selected_rows_df select_rename_def add_columns_def o_def)
qed

text \<open>With the unmatched third record: the table of \<^verbatim>\<open>3f\<close> shows A1, then A2.\<close>

theorem filtered_df_input_order_witness:
  "map Brain_ID (filtered_df (df stub_naturalsize with_unmatched) (Some ''3f'')) =
     [''A1'', ''A2''] \<and>
   map Number_of_Files (filtered_df (df stub_naturalsize with_unmatched) (Some ''3f'')) =
     [10, 0]"
proof -
  have a: "filter (\<lambda>d. extract_collection (bildirectory d) = Some ''3f'') with_unmatched =
      scenario"
    by (simp add: with_unmatched_def scenario_def match_here_def is_hex_def)
  from filtered_df_input_order [of stub_naturalsize with_unmatched "''3f''"]
  show ?thesis unfolding a by (simp add: scenario_def)
qed

text \<open>
  Claim C10. For every frame and every selection, also the null selection of an
  empty selector, every row kept by the comparison has a collection code, the
  selected one. So every row of the filtered table shows that code, and every entry
  of every possible pie-chart input comes from a row with that code: a record whose
  collection code is absent appears in neither. The selector offers codes only, never
  null, by the type of \<open>unique_collections\<close>.
\<close>

theorem null_collection_never_selected:
  "(\<forall>r \<in> set (selected_rows rows sel). collection r \<noteq> None \<and> collection r = sel) \<and>
   (\<forall>v \<in> set (filtered_df rows sel). Collection v \<noteq> None \<and> Collection v = sel) \<and>
   (\<forall>out. pie_data rows sel out \<longrightarrow>
      (\<forall>e \<in> set out. \<exists>r \<in> set rows.
         collection r \<noteq> None \<and> collection r = sel \<and> e = (bildid r, number_of_files r)))"
proof -
  have k: "\<And>x. eq_na x sel \<Longrightarrow> x \<noteq> None \<and> x = sel"
    by (cases sel) (auto simp: eq_na_Some)
  have 1: "\<forall>r \<in> set (selected_rows rows sel). collection r \<noteq> None \<and> collection r = sel"
    using k by (simp add: selected_rows_def)
  then have 2: "\<forall>v \<in> set (filtered_df rows sel). Collection v \<noteq> None \<and> Collection v = sel"
    by (auto simp: filtered_df_def select_rename_def)
  have 3: "\<forall>out. pie_data rows sel out \<longrightarrow>
      (\<forall>e \<in> set out. \<exists>r \<in> set rows.
         collection r \<noteq> None \<and> collection r = sel \<and> e = (bildid r, number_of_files r))"
  proof (intro allI impI ballI)
    fix out e
    assume "pie_data rows sel out" and e: "e \<in> set out"
    then have "mset out = mset (pie_unsorted rows sel)"
      by (simp add: pie_data_def sort_values_desc_def)
    then have "set out = set (pie_unsorted rows sel)" by (rule mset_eq_setD)
    with e obtain r where r: "r \<in> set rows" "eq_na (collection r) sel"
      and er: "e = (bildid r, number_of_files r)"
      by (auto simp: pie_unsorted_def selected_rows_def)
    from k [OF r(2)] er have "collection r \<noteq> None \<and> collection r = sel \<and>
        e = (bildid r, number_of_files r)"
      by blast
    with r(1) show "\<exists>r \<in> set rows.
         collection r \<noteq> None \<and> collection r = sel \<and> e = (bildid r, number_of_files r)"
      by (rule rev_bexI)
  qed
  from 1 2 3 show ?thesis by blast
qed

text \<open>
  With the unmatched third record: the frame has a row without a code, the filtered
  table of \<^verbatim>\<open>3f\<close> has two rows, and both show \<^verbatim>\<open>3f\<close>.
\<close>

theorem null_collection_never_selected_witness:
  "map collection (df stub_naturalsize with_unmatched) = [Some ''3f'', Some ''3f'', None] \<and>
   length (filtered_df (df stub_naturalsize with_unmatched) (Some ''3f'')) = 2 \<and>
   list_all (\<lambda>v. Collection v = Some ''3f'')
     (filtered_df (df stub_naturalsize with_unmatched) (Some ''3f''))"
proof -
  have c: "map collection (df stub_naturalsize with_unmatched) = [Some ''3f'', Some ''3f'', None]"
    by (simp add: df_def with_unmatched_def scenario_def add_columns_def match_here_def
        is_hex_def)
  have "filter (\<lambda>d. extract_collection (bildirectory d) = Some ''3f'') with_unmatched = scenario"
    by (simp add: with_unmatched_def scenario_def match_here_def is_hex_def)
  then have l: "length (filtered_df (df stub_naturalsize with_unmatched) (Some ''3f'')) = 2"
    by (simp add: filtered_df_def selected_rows_df) (simp add: scenario_def)
  from null_collection_never_selected [of "df stub_naturalsize with_unmatched" "Some ''3f''"]
  have "\<forall>v \<in> set (filtered_df (df stub_naturalsize with_unmatched) (Some ''3f'')).
      Collection v = Some ''3f''"
    by blast
  then have "list_all (\<lambda>v. Collection v = Some ''3f'')
     (filtered_df (df stub_naturalsize with_unmatched) (Some ''3f''))"
    by (simp add: list_all_iff)
  with c l show ?thesis by blast
qed

section \<open>The legend\<close>

lemma num_cols_nat: "ls \<noteq> [] \<Longrightarrow> num_cols ls = int ((length ls - 1) div 25 + 1)"
proof -
  assume "ls \<noteq> []"
  then have "0 < length ls" by simp
  then have h: "int (length ls) - 1 = int (length ls - 1)" by linarith
  have "num_cols ls = int (length ls - 1) div 25 + 1"
    unfolding num_cols_def h ..
  also have "\<dots> = int ((length ls - 1) div 25 + 1)"
    by (simp only: of_nat_add of_nat_1 zdiv_int of_nat_numeral)
  finally show ?thesis .
qed

lemma ceiling_div_25: "- (- (x::int) div 25) = (x - 1) div 25 + 1"
  by linarith

lemma num_cols_ceiling: "num_cols ls = \<lceil>real (length ls) / 25\<rceil>"
proof -
  have "\<lceil>real (length ls) / 25\<rceil> = \<lceil>of_int (int (length ls)) / (of_int 25 :: real)\<rceil>"
    by simp
  also have "\<dots> = - (- int (length ls) div 25)"
    by (rule ceiling_divide_eq_div)
  also have "\<dots> = (int (length ls) - 1) div 25 + 1"
    by (rule ceiling_div_25)
  finally show ?thesis by (simp only: num_cols_def)
qed

lemma sum_list_filter_pos: "sum_list (filter (\<lambda>k. 0 < k) (xs :: nat list)) = sum_list xs"
  by (induction xs) auto

lemma legend_column_sizes_sum:
  "0 < ncol \<Longrightarrow> sum_list (legend_column_sizes n ncol) = n"
proof -
  assume c: "0 < ncol"
  then have m: "n mod ncol \<le> ncol" by (simp add: less_imp_le)
  have "sum_list (legend_column_sizes n ncol) =
      (n mod ncol) * (n div ncol + 1) + (ncol - n mod ncol) * (n div ncol)"
    by (simp add: legend_column_sizes_def sum_list_filter_pos sum_list_replicate)
  also have "\<dots> = (n mod ncol + (ncol - n mod ncol)) * (n div ncol) + n mod ncol"
    by (simp add: algebra_simps)
  also have "\<dots> = ncol * (n div ncol) + n mod ncol"
    using m by simp
  also have "\<dots> = n" by simp
  finally show ?thesis .
qed

lemma legend_column_sizes_le:
  assumes "0 < n" and c: "c = (n - 1) div 25 + 1" and k: "k \<in> set (legend_column_sizes n c)"
  shows "k \<le> 25"
proof -
  from assms(1) c have n: "n \<le> 25 * c" by linarith
  have cpos: "0 < c" using c by simp
  from n have "n div c \<le> (25 * c) div c" by (rule div_le_mono)
  with cpos have d: "n div c \<le> 25" by simp
  from k consider "k = n div c + 1" "0 < n mod c" | "k = n div c"
    by (auto simp: legend_column_sizes_def split: if_splits)
  then show ?thesis
  proof cases
    case 1
    have "n div c \<noteq> 25"
    proof
      assume e: "n div c = 25"
      have "n div c * c + n mod c = n" by (rule div_mult_mod_eq)
      then have "25 * c + n mod c = n" unfolding e .
      with n 1(2) show False by linarith
    qed
    with d 1(1) show ?thesis by simp
  next
    case 2
    with d show ?thesis by simp
  qed
qed

lemma legend_column_sizes_length:
  assumes "0 < c" and "c \<le> n"
  shows "length (legend_column_sizes n c) = c"
proof -
  from assms have "0 < n div c" by (simp add: div_greater_zero_iff)
  then have "filter (\<lambda>k. 0 < k)
      (replicate (n mod c) (n div c + 1) @ replicate (c - n mod c) (n div c)) =
      replicate (n mod c) (n div c + 1) @ replicate (c - n mod c) (n div c)"
    by (simp add: filter_id_conv)
  then have "length (legend_column_sizes n c) = n mod c + (c - n mod c)"
    by (simp add: legend_column_sizes_def)
  also have "\<dots> = c" using assms(1) by (simp add: less_imp_le)
  finally show ?thesis .
qed

lemma cols_le: "(0::nat) < n \<Longrightarrow> (n - 1) div 25 + 1 \<le> n"
  by linarith

text \<open>
  Claim C8. For every non-empty pie-chart input of \<open>n\<close> slices, the number of legend
  columns asked for is the ceiling of \<open>n / 25\<close>; the legend then has that many
  columns, every column holds at most 25 entries, and the columns hold the \<open>n\<close>
  entries together.
\<close>

theorem num_cols_columns_of_25:
  "pie \<noteq> [] \<Longrightarrow>
     num_cols (labels pie) = \<lceil>real (length pie) / 25\<rceil> \<and>
     int (length (legend_column_sizes (length (labels pie)) (nat (num_cols (labels pie))))) =
       num_cols (labels pie) \<and>
     (\<forall>k \<in> set (legend_column_sizes (length (labels pie)) (nat (num_cols (labels pie)))).
        k \<le> 25) \<and>
     sum_list (legend_column_sizes (length (labels pie)) (nat (num_cols (labels pie)))) =
       length pie"
proof -
  assume "pie \<noteq> []"
  then have ne: "labels pie \<noteq> []" by (simp add: labels_def)
  then have pos: "0 < length (labels pie)" by simp
  have len: "length (labels pie) = length pie" by (simp add: labels_def)
  have i: "num_cols (labels pie) = int ((length (labels pie) - 1) div 25 + 1)"
    by (rule num_cols_nat [OF ne])
  then have c: "nat (num_cols (labels pie)) = (length (labels pie) - 1) div 25 + 1"
    by simp
  have "length (legend_column_sizes (length (labels pie)) (nat (num_cols (labels pie)))) =
      nat (num_cols (labels pie))"
  proof (rule legend_column_sizes_length)
    show "0 < nat (num_cols (labels pie))" unfolding c by simp
    show "nat (num_cols (labels pie)) \<le> length (labels pie)"
      unfolding c by (rule cols_le [OF pos])
  qed
  then have n: "int (length (legend_column_sizes (length (labels pie))
      (nat (num_cols (labels pie))))) = num_cols (labels pie)"
    unfolding c i by simp
  have "\<forall>k \<in> set (legend_column_sizes (length (labels pie)) (nat (num_cols (labels pie)))).
      k \<le> 25"
    using legend_column_sizes_le [OF pos c] by blast
  moreover have
    "sum_list (legend_column_sizes (length (labels pie)) (nat (num_cols (labels pie)))) =
       length (labels pie)"
    by (rule legend_column_sizes_sum) (simp add: c)
  ultimately show ?thesis using n num_cols_ceiling [of "labels pie"] unfolding len by blast
qed

text \<open>26 slices: two columns of 13 entries.\<close>

theorem num_cols_columns_of_25_witness:
  "replicate 26 (''A'', 1::int) \<noteq> [] \<and> num_cols (labels (replicate 26 (''A'', 1))) = 2 \<and>
   legend_column_sizes 26 2 = [13, 13]"
proof -
  have ne: "replicate 26 (''A'', 1::int) \<noteq> []" by simp
  have "legend_column_sizes 26 2 = [13, 13]"
    by code_simp
  with ne num_cols_columns_of_25 [OF ne] show ?thesis by simp
qed

section \<open>A run that raises\<close>





end
